theory Spec2Isabelle
  imports Complex_Main "HOL-Library.Word" "HOL-Library.Sublist"
begin

section \<open>Strings\<close>

text \<open>
  A JavaScript string is a sequence of UTF-16 code units. The literals of the source
  are ASCII, so they are written as HOL strings and converted with \<open>js\<close>.
  A string is truthy exactly when it is not empty.
\<close>

type_synonym jsstring = "16 word list"

definition js :: "string \<Rightarrow> jsstring" where
  "js s = map of_char s"

text \<open>
  \<open>String.prototype.trim\<close> strips the code units of WhiteSpace and LineTerminator
  (ECMA-262): TAB, LF, VT, FF, CR, SP, NBSP, the Unicode space separators and the
  byte order mark.
\<close>

definition isWhiteSpace :: "16 word \<Rightarrow> bool" where
  "isWhiteSpace c \<longleftrightarrow>
     c \<in> {0x0009, 0x000A, 0x000B, 0x000C, 0x000D, 0x0020, 0x00A0, 0x1680,
          0x2000, 0x2001, 0x2002, 0x2003, 0x2004, 0x2005, 0x2006, 0x2007,
          0x2008, 0x2009, 0x200A, 0x2028, 0x2029, 0x202F, 0x205F, 0x3000, 0xFEFF}"

definition trim :: "jsstring \<Rightarrow> jsstring" where
  "trim s = rev (dropWhile isWhiteSpace (rev (dropWhile isWhiteSpace s)))"

section \<open>Data model (ILLMAdapter.ts, IMessagingPlatformAdapter.ts)\<close>

datatype role = User | Assistant | System

record LLMMessage =
  role :: role
  content :: jsstring

record LLMOptions =
  temperature :: "real option"
  maxTokens :: "nat option"
  model :: "jsstring option"

text \<open>
  \<open>originalMessage\<close> is an opaque platform value that the core never reads; the
  timestamp is kept as milliseconds.
\<close>

record MessagePayload =
  userId :: jsstring
  userName :: "jsstring option"
  "text" :: jsstring
  timestamp :: nat

text \<open>A thrown value: an \<open>Error\<close> with its message.\<close>

datatype error = Error jsstring

section \<open>Array operations\<close>

text \<open>
  \<open>Array.prototype.splice(start, deleteCount)\<close> for a non-negative \<open>start\<close>:
  the start is clamped to the length, the count to what is left after the start, and
  a negative count deletes nothing. The array keeps everything else, in order.
\<close>

definition spliceArray :: "nat \<Rightarrow> int \<Rightarrow> 'a list \<Rightarrow> 'a list" where
  "spliceArray start deleteCount xs =
     (let actualStart = min start (length xs);
          actualDeleteCount = min (nat (max deleteCount 0)) (length xs - actualStart)
      in take actualStart xs @ drop (actualStart + actualDeleteCount) xs)"

section \<open>History policy of \<open>Chatbot.handleIncomingMessage\<close>\<close>

definition maxHistoryLength :: nat where
  "maxHistoryLength = 10"

text \<open>\<open>history.push({ role: "user", content: payload.text })\<close>\<close>

definition pushUser :: "LLMMessage list \<Rightarrow> jsstring \<Rightarrow> LLMMessage list" where
  "pushUser history t = history @ [\<lparr>role = User, content = t\<rparr>]"

text \<open>\<open>history.push({ role: "assistant", content: llmResponseText })\<close>\<close>

definition pushAssistant :: "LLMMessage list \<Rightarrow> jsstring \<Rightarrow> LLMMessage list" where
  "pushAssistant history t = history @ [\<lparr>role = Assistant, content = t\<rparr>]"

text \<open>\<open>history[0]?.role === "system" ? 1 : 0\<close>\<close>

definition systemPromptOffset :: "LLMMessage list \<Rightarrow> nat" where
  "systemPromptOffset history =
     (case history of
        [] \<Rightarrow> 0
      | m # _ \<Rightarrow> if role m = System then 1 else 0)"

text \<open>
  The truncation step: when the history is longer than the cap, splice out
  \<open>history.length - maxHistoryLength\<close> entries from the offset on.
\<close>

definition enforceCap :: "LLMMessage list \<Rightarrow> LLMMessage list" where
  "enforceCap history =
     (if length history > maxHistoryLength
      then spliceArray (systemPromptOffset history)
             (int (length history) - int maxHistoryLength) history
      else history)"

section \<open>Adapter interfaces\<close>

text \<open>
  An adapter is an object with private state. A method is modelled as a function from
  the adapter's state and the arguments to the outcome of the returned promise
  (\<open>Inl\<close> when it rejects, \<open>Inr\<close> when it resolves) and the adapter's next state.
  A call to \<open>generateResponse\<close> receives the history array itself; the adapters of
  this repository only read it, and so does the model.
\<close>

type_synonym 'l ILLMAdapter =
  "'l \<Rightarrow> LLMMessage list \<Rightarrow> LLMOptions option \<Rightarrow> (error + jsstring) \<times> 'l"

type_synonym 'm IMessagingPlatformAdapter =
  "'m \<Rightarrow> jsstring \<Rightarrow> jsstring \<Rightarrow> (error + unit) \<times> 'm"

section \<open>The Chatbot core\<close>

text \<open>
  The calls that cross the adapter boundary are recorded in order, so that what the
  core asked of its adapters during a turn can be stated.
\<close>

datatype event = LLMCall "LLMMessage list" | SendCall jsstring jsstring

text \<open>
  The fields of the class, the private states of its two adapters, and the record of
  calls. \<open>conversationHistories\<close> is the \<open>Map\<close> from user id to history array.
\<close>

record ('l, 'm) Chatbot =
  messagingAdapter :: "'m IMessagingPlatformAdapter"
  llmAdapter :: "'l ILLMAdapter"
  llmOptions :: "LLMOptions option"
  conversationHistories :: "jsstring \<rightharpoonup> LLMMessage list"
  llmState :: 'l
  messagingState :: 'm
  calls :: "event list"

text \<open>The constructor: \<open>conversationHistories = new Map()\<close>.\<close>

definition newChatbot ::
  "'m IMessagingPlatformAdapter \<Rightarrow> 'm \<Rightarrow> 'l ILLMAdapter \<Rightarrow> 'l \<Rightarrow> LLMOptions option
   \<Rightarrow> ('l, 'm) Chatbot" where
  "newChatbot ma m0 la l0 opts =
     \<lparr>messagingAdapter = ma, llmAdapter = la, llmOptions = opts,
      conversationHistories = Map.empty, llmState = l0, messagingState = m0,
      calls = []\<rparr>"

text \<open>The stored history of a user; a user without an entry has none.\<close>

definition historyOf :: "('l, 'm) Chatbot \<Rightarrow> jsstring \<Rightarrow> LLMMessage list" where
  "historyOf c u = (case conversationHistories c u of None \<Rightarrow> [] | Some h \<Rightarrow> h)"

definition noResponseNotice :: jsstring where
  "noResponseNotice = js ''I'm sorry, I couldn't generate a response right now.''"

definition genericApology :: jsstring where
  "genericApology = js ''Sorry, I encountered an error. Please try again later.''"

text \<open>\<open>await this.llmAdapter.generateResponse(history, this.llmOptions)\<close>\<close>

definition callGenerateResponse ::
  "('l, 'm) Chatbot \<Rightarrow> LLMMessage list \<Rightarrow> (error + jsstring) \<times> ('l, 'm) Chatbot" where
  "callGenerateResponse c history =
     (case llmAdapter c (llmState c) history (llmOptions c) of
        (r, l') \<Rightarrow> (r, c\<lparr>llmState := l', calls := calls c @ [LLMCall history]\<rparr>))"

text \<open>\<open>await this.messagingAdapter.sendMessage(userId, text)\<close>\<close>

definition callSendMessage ::
  "('l, 'm) Chatbot \<Rightarrow> jsstring \<Rightarrow> jsstring \<Rightarrow> (error + unit) \<times> ('l, 'm) Chatbot" where
  "callSendMessage c u t =
     (case messagingAdapter c (messagingState c) u t of
        (r, m') \<Rightarrow> (r, c\<lparr>messagingState := m', calls := calls c @ [SendCall u t]\<rparr>))"

text \<open>
  The \<open>catch\<close> block: it sends the apology, and a rejection of that send is the
  rejection of the whole call.
\<close>

definition catchBlock ::
  "('l, 'm) Chatbot \<Rightarrow> MessagePayload \<Rightarrow> (error + unit) \<times> ('l, 'm) Chatbot" where
  "catchBlock c payload = callSendMessage c (userId payload) genericApology"

text \<open>
  One turn. The history array is looked up or created, the user entry pushed and the
  cap enforced, all on the array the map holds. Inside \<open>try\<close>: the adapter is called
  with that array; a truthy answer is pushed as an assistant entry and sent, a falsy one
  is replaced by the notice; whatever rejects inside \<open>try\<close> reaches the \<open>catch\<close> block.
  The \<open>console\<close> lines of the method change nothing and are left out.
\<close>

definition handleIncomingMessage ::
  "('l, 'm) Chatbot \<Rightarrow> MessagePayload \<Rightarrow> (error + unit) \<times> ('l, 'm) Chatbot" where
  "handleIncomingMessage c payload =
     (let history0 = (case conversationHistories c (userId payload) of
                        None \<Rightarrow> []
                      | Some h \<Rightarrow> h);
          history = enforceCap (pushUser history0 (text payload));
          c1 = c\<lparr>conversationHistories :=
                   (conversationHistories c)(userId payload \<mapsto> history)\<rparr>
      in case callGenerateResponse c1 history of
           (Inl e, c2) \<Rightarrow> catchBlock c2 payload
         | (Inr llmResponseText, c2) \<Rightarrow>
             if llmResponseText \<noteq> [] then
               (let c3 = c2\<lparr>conversationHistories :=
                              (conversationHistories c2)
                                (userId payload \<mapsto> pushAssistant history llmResponseText)\<rparr>
                in case callSendMessage c3 (userId payload) llmResponseText of
                     (Inl e, c4) \<Rightarrow> catchBlock c4 payload
                   | (Inr u, c4) \<Rightarrow> (Inr (), c4))
             else
               (case callSendMessage c2 (userId payload) noResponseNotice of
                  (Inl e, c3) \<Rightarrow> catchBlock c3 payload
                | (Inr u, c3) \<Rightarrow> (Inr (), c3)))"

text \<open>
  A sequence of inbound messages in which no two turns overlap: each call returns
  before the next message is handled. The listeners of the messaging adapters catch a
  rejection of the callback and go on, so the next message is handled whatever the
  outcome of the last. The listeners do not wait for a call to return, so this is one
  kind of run among others; the runs with overlapping turns are those of \<open>run\<close>
  below.
\<close>

fun processMessages :: "('l, 'm) Chatbot \<Rightarrow> MessagePayload list \<Rightarrow> ('l, 'm) Chatbot" where
  "processMessages c [] = c"
| "processMessages c (payload # payloads) =
     processMessages (snd (handleIncomingMessage c payload)) payloads"

text \<open>The parts of the record of calls.\<close>

fun llmContexts :: "event list \<Rightarrow> LLMMessage list list" where
  "llmContexts [] = []"
| "llmContexts (LLMCall ms # evs) = ms # llmContexts evs"
| "llmContexts (SendCall u t # evs) = llmContexts evs"

fun sendCalls :: "event list \<Rightarrow> (jsstring \<times> jsstring) list" where
  "sendCalls [] = []"
| "sendCalls (LLMCall ms # evs) = sendCalls evs"
| "sendCalls (SendCall u t # evs) = (u, t) # sendCalls evs"

text \<open>
  What a turn leaves as the user's history: the capped history with the user entry,
  and the assistant entry after it when the adapter resolved with a truthy text.
\<close>

definition turnContext :: "('l, 'm) Chatbot \<Rightarrow> MessagePayload \<Rightarrow> LLMMessage list" where
  "turnContext c payload = enforceCap (pushUser (historyOf c (userId payload)) (text payload))"

definition turnResponse :: "('l, 'm) Chatbot \<Rightarrow> MessagePayload \<Rightarrow> error + jsstring" where
  "turnResponse c payload =
     fst (llmAdapter c (llmState c) (turnContext c payload) (llmOptions c))"

definition turnHistory :: "('l, 'm) Chatbot \<Rightarrow> MessagePayload \<Rightarrow> LLMMessage list" where
  "turnHistory c payload =
     (case turnResponse c payload of
        Inl e \<Rightarrow> turnContext c payload
      | Inr t \<Rightarrow> if t \<noteq> [] then pushAssistant (turnContext c payload) t
                 else turnContext c payload)"

text \<open>The text of the first \<open>sendMessage\<close> of a turn.\<close>

definition firstReply :: "error + jsstring \<Rightarrow> jsstring" where
  "firstReply r =
     (case r of
        Inl e \<Rightarrow> genericApology
      | Inr t \<Rightarrow> if t \<noteq> [] then t else noResponseNotice)"

text \<open>
  The texts sent during a turn. A rejection inside \<open>try\<close> leads to the \<open>catch\<close>
  block, which sends the apology: when the adapter resolved and the send of its answer
  (or of the notice) rejects, a second send follows.
\<close>

definition turnSends :: "('l, 'm) Chatbot \<Rightarrow> MessagePayload \<Rightarrow> jsstring list" where
  "turnSends c payload =
     (let t1 = firstReply (turnResponse c payload)
      in if isl (turnResponse c payload) then [t1]
         else if isl (fst (messagingAdapter c (messagingState c) (userId payload) t1))
         then [t1, genericApology]
         else [t1])"


section \<open>Overlapping turns\<close>

text \<open>
  \<open>handleIncomingMessage\<close> is an \<open>async\<close> method and no listener waits for it
  (\<open>bot.on("message", \<dots>)\<close>, \<open>rl.on("line", \<dots>)\<close> and
  \<open>this.onMessage(payload).catch(\<dots>)\<close> all let the promise go), so a message can be
  handled while earlier calls are suspended at an \<open>await\<close>. A call runs in pieces, each
  without interruption: from its start to the \<open>await\<close> of \<open>generateResponse\<close>; from
  the settling of that promise to the \<open>await\<close> of \<open>sendMessage\<close>; from the settling
  of a send to the next \<open>await\<close> or to the return.
\<close>

datatype phase = AwaitingLLM | AwaitingSend | AwaitingApology | Returned "error + unit"

text \<open>A call of \<open>handleIncomingMessage\<close>: its argument and where it stands.\<close>

record turn =
  turnPayload :: MessagePayload
  phase :: phase

text \<open>
  What happens: a listener calls \<open>handleIncomingMessage\<close>, or the promise that a
  suspended call awaits settles, with the outcome the adapter gave. Calls are numbered
  in the order in which they were made, from 0.
\<close>

datatype occurrence =
  Inbound MessagePayload | LLMSettles nat "error + jsstring" | SendSettles nat "error + unit"

text \<open>
  The map of histories, the calls made so far, and the record of what was asked of the
  adapters. The local variable \<open>history\<close> of a call and the entry of the map for the
  user of its payload are the same array at all times: an entry is created once, when
  the user has none, and is only ever set to that same array again. So all the calls of
  one user work on one array, which is the value of the map at that user.
\<close>

record eventLoop =
  histories :: "jsstring \<rightharpoonup> LLMMessage list"
  turns :: "turn list"
  requests :: "event list"

definition idle :: eventLoop where
  "idle = \<lparr>histories = Map.empty, turns = [], requests = []\<rparr>"

definition storedHistory :: "eventLoop \<Rightarrow> jsstring \<Rightarrow> LLMMessage list" where
  "storedHistory s u = (case histories s u of None \<Rightarrow> [] | Some h \<Rightarrow> h)"

definition setPhase :: "eventLoop \<Rightarrow> nat \<Rightarrow> phase \<Rightarrow> eventLoop" where
  "setPhase s i ph = s\<lparr>turns := (turns s)[i := (turns s ! i)\<lparr>phase := ph\<rparr>]\<rparr>"

text \<open>
  From the start of a call to its first \<open>await\<close>: the array is looked up or created,
  the user entry pushed, the cap enforced, and \<open>generateResponse\<close> called with the
  array.
\<close>

definition enter :: "eventLoop \<Rightarrow> MessagePayload \<Rightarrow> eventLoop" where
  "enter s payload =
     (let history0 = (case histories s (userId payload) of None \<Rightarrow> [] | Some h \<Rightarrow> h);
          history = enforceCap (pushUser history0 (text payload))
      in s\<lparr>histories := (histories s)(userId payload \<mapsto> history),
           turns := turns s @ [\<lparr>turnPayload = payload, phase = AwaitingLLM\<rparr>],
           requests := requests s @ [LLMCall history]\<rparr>)"

text \<open>
  The promise of \<open>generateResponse\<close> settles for call \<open>i\<close>. A truthy answer is pushed
  on the array as it is now, with no cap, and sent; a falsy one is replaced by the
  notice; a rejection leads to the \<open>catch\<close> block and its apology. The occurrence
  means nothing for a call that is not waiting for it.
\<close>

definition resumeAfterLLM :: "eventLoop \<Rightarrow> nat \<Rightarrow> error + jsstring \<Rightarrow> eventLoop" where
  "resumeAfterLLM s i r =
     (if i < length (turns s) \<and> phase (turns s ! i) = AwaitingLLM then
        (let u = userId (turnPayload (turns s ! i))
         in case r of
              Inl e \<Rightarrow>
                (setPhase s i AwaitingApology)
                  \<lparr>requests := requests s @ [SendCall u genericApology]\<rparr>
            | Inr llmResponseText \<Rightarrow>
                if llmResponseText \<noteq> [] then
                  (setPhase s i AwaitingSend)
                    \<lparr>histories :=
                       (histories s)(u \<mapsto> pushAssistant (storedHistory s u) llmResponseText),
                     requests := requests s @ [SendCall u llmResponseText]\<rparr>
                else
                  (setPhase s i AwaitingSend)
                    \<lparr>requests := requests s @ [SendCall u noResponseNotice]\<rparr>)
      else s)"

text \<open>
  The promise of \<open>sendMessage\<close> settles for call \<open>i\<close>. Inside \<open>try\<close> a rejection
  leads to the \<open>catch\<close> block; the send of the \<open>catch\<close> block ends the call as it
  ends itself.
\<close>

definition resumeAfterSend :: "eventLoop \<Rightarrow> nat \<Rightarrow> error + unit \<Rightarrow> eventLoop" where
  "resumeAfterSend s i r =
     (if i < length (turns s) \<and> phase (turns s ! i) = AwaitingSend then
        (case r of
           Inl e \<Rightarrow>
             (setPhase s i AwaitingApology)
               \<lparr>requests := requests s
                  @ [SendCall (userId (turnPayload (turns s ! i))) genericApology]\<rparr>
         | Inr x \<Rightarrow> setPhase s i (Returned (Inr ())))
      else if i < length (turns s) \<and> phase (turns s ! i) = AwaitingApology then
        setPhase s i (Returned r)
      else s)"

fun step :: "eventLoop \<Rightarrow> occurrence \<Rightarrow> eventLoop" where
  "step s (Inbound payload) = enter s payload"
| "step s (LLMSettles i r) = resumeAfterLLM s i r"
| "step s (SendSettles i r) = resumeAfterSend s i r"

fun run :: "eventLoop \<Rightarrow> occurrence list \<Rightarrow> eventLoop" where
  "run s [] = s"
| "run s (e # es) = run (step s e) es"

text \<open>
  The calls of a user that wait for \<open>generateResponse\<close>, their number, and the largest
  that this number is in the course of a run.
\<close>

definition awaitsLLM :: "jsstring \<Rightarrow> turn \<Rightarrow> bool" where
  "awaitsLLM u t \<longleftrightarrow> phase t = AwaitingLLM \<and> userId (turnPayload t) = u"

definition awaitingLLM :: "eventLoop \<Rightarrow> jsstring \<Rightarrow> nat" where
  "awaitingLLM s u = length (filter (awaitsLLM u) (turns s))"

fun peakAwaiting :: "eventLoop \<Rightarrow> occurrence list \<Rightarrow> jsstring \<Rightarrow> nat" where
  "peakAwaiting s [] u = awaitingLLM s u"
| "peakAwaiting s (e # es) u = max (awaitingLLM s u) (peakAwaiting (step s e) es u)"

text \<open>
  A run is orderly for a user when no message of the user is handled while a call of
  the same user waits for \<open>generateResponse\<close>, and every \<open>generateResponse\<close> of a
  call of the user resolves with a text that is not empty. Nothing is asked of the
  calls of other users or of the sends.
\<close>

definition orderlyStep :: "jsstring \<Rightarrow> eventLoop \<Rightarrow> occurrence \<Rightarrow> bool" where
  "orderlyStep u s e =
     (case e of
        Inbound payload \<Rightarrow> if userId payload = u then awaitingLLM s u = 0 else True
      | LLMSettles i r \<Rightarrow>
          if i < length (turns s) \<and> awaitsLLM u (turns s ! i)
          then (case r of Inl e \<Rightarrow> False | Inr t \<Rightarrow> t \<noteq> [])
          else True
      | SendSettles i r \<Rightarrow> True)"

fun orderly :: "jsstring \<Rightarrow> eventLoop \<Rightarrow> occurrence list \<Rightarrow> bool" where
  "orderly u s [] = True"
| "orderly u s (e # es) = (orderlyStep u s e \<and> orderly u (step s e) es)"

section \<open>The shape of a history\<close>

text \<open>
  Entries alternate when no entry has the system role and no two neighbours have the
  same role. A history is well formed when, after at most one leading system entry,
  its entries alternate.
\<close>

fun alternates :: "role list \<Rightarrow> bool" where
  "alternates [] = True"
| "alternates [r] = (r \<noteq> System)"
| "alternates (r # r' # rs) = (r \<noteq> System \<and> r \<noteq> r' \<and> alternates (r' # rs))"

definition wellFormedHistory :: "LLMMessage list \<Rightarrow> bool" where
  "wellFormedHistory h =
     (case map role h of
        [] \<Rightarrow> True
      | r # rs \<Rightarrow> if r = System then alternates rs else alternates (r # rs))"

text \<open>
  A history is settled when its entries alternate and the last one, if any, is an
  assistant entry: the state of a history between turns that were all answered.
\<close>

definition settled :: "LLMMessage list \<Rightarrow> bool" where
  "settled h \<longleftrightarrow> alternates (map role h) \<and> (h = [] \<or> role (last h) = Assistant)"

text \<open>
  The history of a user in an orderly run: its entries alternate; it ends with an
  assistant entry when no call of the user waits for \<open>generateResponse\<close>, and with a
  user entry when one call does.
\<close>

definition inStep :: "jsstring \<Rightarrow> eventLoop \<Rightarrow> bool" where
  "inStep u s \<longleftrightarrow>
     alternates (map role (storedHistory s u))
     \<and> (if awaitingLLM s u = 0
        then storedHistory s u = [] \<or> role (last (storedHistory s u)) = Assistant
        else awaitingLLM s u = 1 \<and> storedHistory s u \<noteq> []
             \<and> role (last (storedHistory s u)) = User)"

section \<open>Messaging adapters: \<open>sendMessage\<close>\<close>

text \<open>What an adapter writes to the console is part of its state.\<close>

datatype console_line =
  ConsoleLog jsstring | ConsoleWarn jsstring | ConsoleError jsstring | Prompt

text \<open>
  ConsoleAdapter.ts. \<open>rl\<close> is the readline interface, present once \<open>connect\<close> has
  run; \<open>this.rl?.prompt()\<close> does nothing without it.
\<close>

record ConsoleAdapter =
  rl :: bool
  console :: "console_line list"

definition CONSOLE_USER_ID :: jsstring where
  "CONSOLE_USER_ID = js ''console_user''"

definition ConsoleAdapter_sendMessage :: "ConsoleAdapter IMessagingPlatformAdapter" where
  "ConsoleAdapter_sendMessage a u t =
     (let a1 = (if u = CONSOLE_USER_ID
                then a\<lparr>console := console a @ [ConsoleLog (js ''Bot: '' @ t)]\<rparr>
                else a\<lparr>console := console a @
                       [ConsoleWarn
                          (js ''ConsoleAdapter: Attempted to send message to unknown user ''
                           @ u)]\<rparr>);
          a2 = (if rl a1 then a1\<lparr>console := console a1 @ [Prompt]\<rparr> else a1)
      in (Inr (), a2))"

text \<open>
  TelegramAdapter.ts. The bot library's \<open>sendMessage\<close> is the platform; when it
  rejects, the error is logged and thrown again.
\<close>

definition TelegramAdapter_sendMessage ::
  "'b IMessagingPlatformAdapter \<Rightarrow> ('b \<times> console_line list) IMessagingPlatformAdapter" where
  "TelegramAdapter_sendMessage bot_sendMessage a u t =
     (case bot_sendMessage (fst a) u t of
        (Inr x, b') \<Rightarrow>
          (Inr (),
           (b', snd a @ [ConsoleLog (js ''TelegramAdapter: Message sent to '' @ u
                                     @ js '': '' @ [0x22] @ t @ [0x22])]))
      | (Inl e, b') \<Rightarrow>
          (Inl e,
           (b', snd a @ [ConsoleError (js ''TelegramAdapter: Error sending message to ''
                                       @ u @ js '':'')])))"

text \<open>
  The Twilio adapter (\<open>TwilioWhatsAppAdapter\<close>). The platform is
  \<open>client.messages.create\<close>, called with body, sender and recipient; it resolves
  with a message whose \<open>sid\<close> is logged.
\<close>

definition TwilioWhatsAppAdapter_sendMessage ::
  "('b \<Rightarrow> jsstring \<Rightarrow> jsstring \<Rightarrow> jsstring \<Rightarrow> (error + jsstring) \<times> 'b) \<Rightarrow> jsstring
   \<Rightarrow> ('b \<times> console_line list) IMessagingPlatformAdapter" where
  "TwilioWhatsAppAdapter_sendMessage messages_create twilioPhoneNumber a u t =
     (case messages_create (fst a) t twilioPhoneNumber u of
        (Inr sid, b') \<Rightarrow>
          (Inr (),
           (b', snd a @ [ConsoleLog (js ''TwilioWhatsAppAdapter: Message sent to '' @ u
                                     @ js ''. SID: '' @ sid)]))
      | (Inl e, b') \<Rightarrow>
          (Inl e,
           (b', snd a @ [ConsoleError
                           (js ''TwilioWhatsAppAdapter: Error sending message to ''
                            @ u @ js '':'')])))"

text \<open>WhatsappAdapter.ts, a placeholder: it logs and resolves.\<close>

definition WhatsAppAdapter_sendMessage :: "console_line list IMessagingPlatformAdapter" where
  "WhatsAppAdapter_sendMessage a u t =
     (Inr (),
      a @ [ConsoleLog (js ''WhatsAppAdapter: Sending '' @ [0x22] @ t @ [0x22]
                       @ js '' to '' @ u @ js '' (Placeholder).'')])"

section \<open>LLM adapters: \<open>generateResponse\<close>\<close>

text \<open>\<open>a || b\<close> on a string that may be missing: a missing or empty one gives \<open>b\<close>.\<close>

definition orElse :: "jsstring option \<Rightarrow> jsstring \<Rightarrow> jsstring" where
  "orElse a b = (case a of None \<Rightarrow> b | Some s \<Rightarrow> if s \<noteq> [] then s else b)"

text \<open>\<open>options?.model\<close>, \<open>options?.temperature\<close>, \<open>options?.maxTokens\<close>\<close>

definition optModel :: "LLMOptions option \<Rightarrow> jsstring option" where
  "optModel options = (case options of None \<Rightarrow> None | Some opt \<Rightarrow> model opt)"

definition optTemperature :: "LLMOptions option \<Rightarrow> real option" where
  "optTemperature options = (case options of None \<Rightarrow> None | Some opt \<Rightarrow> temperature opt)"

definition optMaxTokens :: "LLMOptions option \<Rightarrow> nat option" where
  "optMaxTokens options = (case options of None \<Rightarrow> None | Some opt \<Rightarrow> maxTokens opt)"

subsection \<open>ChatGPTAdapter\<close>

text \<open>The request and the part of the completion that the adapter reads.\<close>

record ChatCompletionRequest =
  req_model :: jsstring
  req_messages :: "LLMMessage list"
  req_temperature :: "real option"
  req_max_tokens :: "nat option"

datatype ChatCompletionMessage = ChatCompletionMessage (message_content: "jsstring option")

datatype Choice = Choice (choice_message: "ChatCompletionMessage option")

datatype ChatCompletion = ChatCompletion (choices: "Choice list")

text \<open>\<open>completion.choices[0]?.message?.content\<close>\<close>

definition firstChoiceContent :: "ChatCompletion \<Rightarrow> jsstring option" where
  "firstChoiceContent completion =
     (case choices completion of
        [] \<Rightarrow> None
      | ch # _ \<Rightarrow>
          (case choice_message ch of
             None \<Rightarrow> None
           | Some m \<Rightarrow> message_content m))"

text \<open>
  The provider is \<open>openai.chat.completions.create\<close>. Whatever it throws is replaced
  by the adapter's own error.
\<close>

definition ChatGPTAdapter_generateResponse ::
  "('p \<Rightarrow> ChatCompletionRequest \<Rightarrow> (error + ChatCompletion) \<times> 'p) \<Rightarrow> jsstring
   \<Rightarrow> 'p ILLMAdapter" where
  "ChatGPTAdapter_generateResponse create defaultModel p messages options =
     (case create p \<lparr>req_model = orElse (optModel options) defaultModel,
                     req_messages = messages,
                     req_temperature = optTemperature options,
                     req_max_tokens = optMaxTokens options\<rparr> of
        (Inr completion, p') \<Rightarrow> (Inr (orElse (firstChoiceContent completion) []), p')
      | (Inl e, p') \<Rightarrow> (Inl (Error (js ''Failed to get response from ChatGPT'')), p'))"

subsection \<open>GeminiAdapter\<close>

datatype Part = Part (part_text: "jsstring option")

datatype Content = Content (content_role: role) (content_parts: "Part list option")

datatype Candidate = Candidate (candidate_content: "Content option")

datatype GenerateContentResponse =
  GenerateContentResponse (candidates: "Candidate list option")

record GenerateContentRequest =
  gen_model :: jsstring
  gen_contents :: "Content list"
  gen_temperature :: "real option"
  gen_maxOutputTokens :: "nat option"

text \<open>\<open>result.response.candidates?.[0]?.content?.parts?.[0]?.text\<close>\<close>

definition firstCandidateText :: "GenerateContentResponse \<Rightarrow> jsstring option" where
  "firstCandidateText response =
     (case candidates response of
        None \<Rightarrow> None
      | Some [] \<Rightarrow> None
      | Some (cand # _) \<Rightarrow>
          (case candidate_content cand of
             None \<Rightarrow> None
           | Some cont \<Rightarrow>
               (case content_parts cont of
                  None \<Rightarrow> None
                | Some [] \<Rightarrow> None
                | Some (part # _) \<Rightarrow> part_text part)))"

text \<open>
  The provider is \<open>generateContent\<close> of the chosen model; the safety settings are a
  constant of the request. The text found is trimmed.
\<close>

definition GeminiAdapter_generateResponse ::
  "('p \<Rightarrow> GenerateContentRequest \<Rightarrow> (error + GenerateContentResponse) \<times> 'p) \<Rightarrow> jsstring
   \<Rightarrow> 'p ILLMAdapter" where
  "GeminiAdapter_generateResponse generateContent defaultModel p messages options =
     (case generateContent p
             \<lparr>gen_model = orElse (optModel options) defaultModel,
              gen_contents = map (\<lambda>msg. Content (role msg) (Some [Part (Some (content msg))]))
                               messages,
              gen_temperature = optTemperature options,
              gen_maxOutputTokens = optMaxTokens options\<rparr> of
        (Inr response, p') \<Rightarrow> (Inr (trim (orElse (firstCandidateText response) [])), p')
      | (Inl e, p') \<Rightarrow> (Inl (Error (js ''Failed to get response from Gemini'')), p'))"

section \<open>Test doubles\<close>

text \<open>
  Adapters with a fixed behaviour, for running the core on concrete inputs: an LLM
  adapter with a fixed outcome; messaging adapters that always resolve, always reject,
  or reject their first call only (the state counts the calls); providers that
  resolve with one given text.
\<close>

definition stubLLM :: "error + jsstring \<Rightarrow> unit ILLMAdapter" where
  "stubLLM r l messages options = (r, l)"

definition stubMessaging :: "unit IMessagingPlatformAdapter" where
  "stubMessaging m u t = (Inr (), m)"


definition rejectingOnceMessaging :: "nat IMessagingPlatformAdapter" where
  "rejectingOnceMessaging n u t =
     (if n = 0 then Inl (Error (js ''chat not found'')) else Inr (), Suc n)"

definition stubOpenAI :: "jsstring \<Rightarrow> unit \<Rightarrow> ChatCompletionRequest \<Rightarrow> (error + ChatCompletion) \<times> unit" where
  "stubOpenAI t p req = (Inr (ChatCompletion [Choice (Some (ChatCompletionMessage (Some t)))]), p)"

definition stubGemini ::
  "jsstring \<Rightarrow> unit \<Rightarrow> GenerateContentRequest \<Rightarrow> (error + GenerateContentResponse) \<times> unit" where
  "stubGemini t p req =
     (Inr (GenerateContentResponse
             (Some [Candidate (Some (Content Assistant (Some [Part (Some t)])))])), p)"

definition inbound :: "jsstring \<Rightarrow> jsstring \<Rightarrow> MessagePayload" where
  "inbound u t = \<lparr>userId = u, userName = None, text = t, timestamp = 0\<rparr>"

text \<open>Two users, a message text, and cores wired to the test doubles.\<close>

definition alice :: jsstring where
  "alice = js ''alice''"

definition bob :: jsstring where
  "bob = js ''bob''"

definition hi :: jsstring where
  "hi = js ''hi''"

definition answeringBot :: "(unit, unit) Chatbot" where
  "answeringBot = newChatbot stubMessaging () (stubLLM (Inr (js ''ok''))) () None"

definition failingBot :: "(unit, unit) Chatbot" where
  "failingBot = newChatbot stubMessaging () (stubLLM (Inl (Error (js ''down'')))) () None"

definition emptyBot :: "(unit, unit) Chatbot" where
  "emptyBot = newChatbot stubMessaging () (stubLLM (Inr [])) () None"


definition flakyBot :: "(unit, nat) Chatbot" where
  "flakyBot = newChatbot rejectingOnceMessaging 0 (stubLLM (Inr (js ''ok''))) () None"


text \<open>A history of eleven entries that starts with a system prompt.\<close>

definition promptedHistory :: "LLMMessage list" where
  "promptedHistory =
     \<lparr>role = System, content = js ''be brief''\<rparr>
     # concat (replicate 5 [\<lparr>role = User, content = hi\<rparr>,
                            \<lparr>role = Assistant, content = js ''ok''\<rparr>])"

text \<open>A history of ten entries without a system prompt.\<close>

definition plainHistory :: "LLMMessage list" where
  "plainHistory =
     concat (replicate 5 [\<lparr>role = User, content = hi\<rparr>,
                          \<lparr>role = Assistant, content = js ''ok''\<rparr>])"

text \<open>
  Runs. A turn of alice that is answered and delivered before anything else happens;
  six such turns followed by two turns that overlap; and a run that is orderly for
  alice, in which her second message arrives while the answer to her first is still
  being sent and a turn of bob fails in between.
\<close>

definition answeredTurn :: "nat \<Rightarrow> occurrence list" where
  "answeredTurn i =
     [Inbound (inbound alice hi), LLMSettles i (Inr (js ''ok'')), SendSettles i (Inr ())]"

definition overlappingRun :: "occurrence list" where
  "overlappingRun =
     concat (map answeredTurn [0..<6])
     @ [Inbound (inbound alice hi), Inbound (inbound alice hi),
        LLMSettles 6 (Inr (js ''ok'')), LLMSettles 7 (Inr (js ''ok''))]"

definition orderlyRun :: "occurrence list" where
  "orderlyRun =
     [Inbound (inbound alice hi), Inbound (inbound bob hi), LLMSettles 0 (Inr (js ''ok'')),
      Inbound (inbound alice hi), LLMSettles 1 (Inl (Error (js ''down''))),
      LLMSettles 2 (Inr (js ''ok'')), SendSettles 0 (Inr ()), SendSettles 2 (Inr ())]"

section \<open>Properties of the truncation step\<close>

lemma systemPromptOffset_le_1: "systemPromptOffset h \<le> 1"
  by (simp add: systemPromptOffset_def split: list.split)

lemma enforceCap_long:
  assumes "length h > maxHistoryLength"
  shows "enforceCap h =
           take (systemPromptOffset h) h
           @ drop (systemPromptOffset h + (length h - maxHistoryLength)) h"
proof -
  have off: "systemPromptOffset h \<le> 1"
    by (rule systemPromptOffset_le_1)
  have cap: "maxHistoryLength = 10"
    by (simp add: maxHistoryLength_def)
  from assms off cap have a: "min (systemPromptOffset h) (length h) = systemPromptOffset h"
    by simp
  from assms off cap
  have b: "min (nat (max (int (length h) - int maxHistoryLength) 0))
               (length h - systemPromptOffset h) = length h - maxHistoryLength"
    by simp
  from assms have "enforceCap h =
      spliceArray (systemPromptOffset h) (int (length h) - int maxHistoryLength) h"
    by (simp add: enforceCap_def)
  also have "\<dots> = take (systemPromptOffset h) h
           @ drop (systemPromptOffset h + (length h - maxHistoryLength)) h"
    by (simp only: spliceArray_def Let_def a b)
  finally show ?thesis .
qed

lemma enforceCap_short: "length h \<le> maxHistoryLength \<Longrightarrow> enforceCap h = h"
  by (simp add: enforceCap_def)

lemma length_enforceCap_long:
  assumes "length h > maxHistoryLength"
  shows "length (enforceCap h) = maxHistoryLength"
proof -
  have "systemPromptOffset h \<le> 1"
    by (rule systemPromptOffset_le_1)
  with assms show ?thesis
    by (simp add: enforceCap_long maxHistoryLength_def)
qed

lemma length_enforceCap_le: "length (enforceCap h) \<le> maxHistoryLength"
proof (cases "length h > maxHistoryLength")
  case True
  then show ?thesis by (simp add: length_enforceCap_long)
next
  case False
  then show ?thesis by (simp add: enforceCap_short)
qed

lemma subseq_take_drop: "subseq (take i xs @ drop (i + k) xs) xs"
proof -
  have "subseq (take i xs @ drop k (drop i xs)) (take i xs @ drop i xs)"
    by (intro list_emb_append_mono subseq_order.order_refl suffix_imp_subseq suffix_drop)
  then show ?thesis
    by (simp add: add.commute)
qed

lemma subseq_enforceCap: "subseq (enforceCap h) h"
proof (cases "length h > maxHistoryLength")
  case True
  show ?thesis
    unfolding enforceCap_long [OF True] by (rule subseq_take_drop)
next
  case False
  then show ?thesis by (simp add: enforceCap_short)
qed

lemma hd_enforceCap_system:
  assumes "h \<noteq> []" and "role (hd h) = System"
  shows "enforceCap h \<noteq> [] \<and> hd (enforceCap h) = hd h"
proof (cases "length h > maxHistoryLength")
  case True
  from assms have "systemPromptOffset h = 1"
    by (cases h) (simp_all add: systemPromptOffset_def)
  with True assms show ?thesis
    by (cases h) (simp_all add: enforceCap_long)
next
  case False
  with assms show ?thesis by (simp add: enforceCap_short)
qed

lemma enforceCap_pinned:
  assumes "length h > maxHistoryLength"
  shows "enforceCap h =
           (if role (hd h) = System
            then hd h # drop (Suc (length h - maxHistoryLength)) h
            else drop (length h - maxHistoryLength) h)"
proof -
  from assms obtain m ms where h: "h = m # ms"
    by (cases h) simp_all
  show ?thesis
  proof (cases "role m = System")
    case True
    with h have "systemPromptOffset h = 1"
      by (simp add: systemPromptOffset_def)
    with enforceCap_long [OF assms] h True show ?thesis
      by simp
  next
    case False
    with h have "systemPromptOffset h = 0"
      by (simp add: systemPromptOffset_def)
    with enforceCap_long [OF assms] h False show ?thesis
      by simp
  qed
qed

text \<open>
  Claim C6. When appending the user message makes the history longer than the cap,
  the truncation step deletes the oldest entries that follow a leading system entry:
  with a system entry in front, that entry stays and the \<open>length - cap\<close> entries after
  it go; without one, the first \<open>length - cap\<close> entries go. This brings the length to
  the cap; a leading system entry stays in front; and what survives is a subsequence of
  the history, so relative order is kept.
\<close>

theorem truncation_removes_oldest_after_system:
  assumes "length (pushUser history t) > maxHistoryLength"
  shows "enforceCap (pushUser history t) =
           (if role (hd (pushUser history t)) = System
            then hd (pushUser history t)
                 # drop (Suc (length (pushUser history t) - maxHistoryLength))
                     (pushUser history t)
            else drop (length (pushUser history t) - maxHistoryLength)
                   (pushUser history t))
         \<and> length (enforceCap (pushUser history t)) = maxHistoryLength
         \<and> (role (hd (pushUser history t)) = System \<longrightarrow>
              hd (enforceCap (pushUser history t)) = hd (pushUser history t))
         \<and> subseq (enforceCap (pushUser history t)) (pushUser history t)"
proof -
  have ne: "pushUser history t \<noteq> []"
    by (simp add: pushUser_def)
  from ne have "role (hd (pushUser history t)) = System \<longrightarrow>
      hd (enforceCap (pushUser history t)) = hd (pushUser history t)"
    by (simp add: hd_enforceCap_system)
  with enforceCap_pinned [OF assms] length_enforceCap_long [OF assms]
    subseq_enforceCap [of "pushUser history t"]
  show ?thesis
    by blast
qed

theorem truncation_removes_oldest_after_system_witness:
  "maxHistoryLength < length (pushUser promptedHistory hi)
   \<and> role (hd (pushUser promptedHistory hi)) = System
   \<and> enforceCap (pushUser promptedHistory hi) =
       \<lparr>role = System, content = js ''be brief''\<rparr> # drop 3 (pushUser promptedHistory hi)
   \<and> length (enforceCap (pushUser promptedHistory hi)) = maxHistoryLength
   \<and> hd (enforceCap (pushUser promptedHistory hi)) = hd (pushUser promptedHistory hi)
   \<and> subseq (enforceCap (pushUser promptedHistory hi)) (pushUser promptedHistory hi)
   \<and> maxHistoryLength < length (pushUser plainHistory hi)
   \<and> role (hd (pushUser plainHistory hi)) = User
   \<and> enforceCap (pushUser plainHistory hi) = drop 1 (pushUser plainHistory hi)
   \<and> length (enforceCap (pushUser plainHistory hi)) = maxHistoryLength"
proof -
  have long: "maxHistoryLength < length (pushUser promptedHistory hi)"
    by code_simp
  have sys: "role (hd (pushUser promptedHistory hi)) = System"
    by code_simp
  have r: "enforceCap (pushUser promptedHistory hi) =
      \<lparr>role = System, content = js ''be brief''\<rparr> # drop 3 (pushUser promptedHistory hi)"
    by code_simp
  have long': "maxHistoryLength < length (pushUser plainHistory hi)"
    by code_simp
  have usr: "role (hd (pushUser plainHistory hi)) = User"
    by code_simp
  have r': "enforceCap (pushUser plainHistory hi) = drop 1 (pushUser plainHistory hi)"
    by code_simp
  from truncation_removes_oldest_after_system [OF long]
    truncation_removes_oldest_after_system [OF long'] long long' sys r usr r'
  show ?thesis
    by blast
qed

section \<open>One turn, piece by piece\<close>

lemmas turn_defs =
  handleIncomingMessage_def callGenerateResponse_def callSendMessage_def catchBlock_def
  turnHistory_def turnResponse_def turnContext_def historyOf_def firstReply_def

lemma handleIncomingMessage_histories:
  "conversationHistories (snd (handleIncomingMessage c p)) =
     (conversationHistories c)(userId p \<mapsto> turnHistory c p)"
  by (simp add: turn_defs Let_def split: prod.split sum.split option.split)

lemma handleIncomingMessage_adapters:
  "messagingAdapter (snd (handleIncomingMessage c p)) = messagingAdapter c"
  "llmAdapter (snd (handleIncomingMessage c p)) = llmAdapter c"
  "llmOptions (snd (handleIncomingMessage c p)) = llmOptions c"
  by (simp_all add: turn_defs Let_def split: prod.split sum.split option.split)

lemma handleIncomingMessage_calls:
  "calls (snd (handleIncomingMessage c p)) =
     calls c @ LLMCall (turnContext c p) # map (SendCall (userId p)) (turnSends c p)"
  by (auto simp add: turn_defs turnSends_def Let_def
      split: prod.split sum.split option.split)



lemma processMessages_llmAdapter:
  "llmAdapter (processMessages c ps) = llmAdapter c"
  by (induction ps arbitrary: c) (simp_all add: handleIncomingMessage_adapters)

lemma historyOf_newChatbot: "historyOf (newChatbot ma m0 la l0 opts) u = []"
  by (simp add: historyOf_def newChatbot_def)

lemma llmContexts_append: "llmContexts (xs @ ys) = llmContexts xs @ llmContexts ys"
  by (induction xs rule: llmContexts.induct) simp_all

lemma llmContexts_sends: "llmContexts (map (SendCall u) ts) = []"
  by (induction ts) simp_all

lemma sendCalls_append: "sendCalls (xs @ ys) = sendCalls xs @ sendCalls ys"
  by (induction xs rule: sendCalls.induct) simp_all

lemma sendCalls_sends: "sendCalls (map (SendCall u) ts) = map (Pair u) ts"
  by (induction ts) simp_all

lemma llmContexts_after_turn:
  "llmContexts (calls (snd (handleIncomingMessage c p))) =
     llmContexts (calls c) @ [turnContext c p]"
  by (simp add: handleIncomingMessage_calls llmContexts_append llmContexts_sends)

lemma sendCalls_after_turn:
  "sendCalls (calls (snd (handleIncomingMessage c p))) =
     sendCalls (calls c) @ map (Pair (userId p)) (turnSends c p)"
  by (simp add: handleIncomingMessage_calls sendCalls_append sendCalls_sends)

section \<open>The length of the history\<close>

lemma length_turnContext: "length (turnContext c p) \<le> maxHistoryLength"
  by (simp add: turnContext_def length_enforceCap_le)

text \<open>
  Claim C1, as stated: after every completed turn the stored history of the user has
  at most \<open>maxHistoryLength\<close> entries. It fails: the cap is enforced when the user
  entry is pushed, and the assistant entry is pushed after that. Six answered turns
  leave eleven entries.
\<close>

theorem stored_history_exceeds_cap:
  "length (historyOf (processMessages answeringBot (replicate 6 (inbound alice hi))) alice) = 11
   \<and> \<not> length (historyOf (processMessages answeringBot (replicate 6 (inbound alice hi))) alice)
         \<le> maxHistoryLength"
  by code_simp

subsection \<open>The pieces of a call\<close>

lemma count_update:
  "i < length xs \<Longrightarrow>
   length (filter P (xs[i := y])) + (if P (xs ! i) then 1 else 0)
     = length (filter P xs) + (if P y then 1 else 0)"
proof (induction xs arbitrary: i)
  case Nil
  then show ?case by simp
next
  case (Cons x xs)
  show ?case
  proof (cases i)
    case 0
    then show ?thesis by simp
  next
    case (Suc j)
    with Cons.prems have "j < length xs" by simp
    from Cons.IH [OF this] Suc show ?thesis by simp
  qed
qed

lemma awaitingLLM_frame [simp]:
  "awaitingLLM (s\<lparr>requests := q\<rparr>) u = awaitingLLM s u"
  "awaitingLLM (s\<lparr>histories := hm\<rparr>) u = awaitingLLM s u"
  by (simp_all add: awaitingLLM_def)

lemma awaitingLLM_setPhase:
  assumes "i < length (turns s)" and "ph \<noteq> AwaitingLLM"
  shows "awaitingLLM (setPhase s i ph) u + (if awaitsLLM u (turns s ! i) then 1 else 0)
           = awaitingLLM s u"
  using count_update [OF assms(1), of "awaitsLLM u" "(turns s ! i)\<lparr>phase := ph\<rparr>"] assms(2)
  by (simp add: awaitingLLM_def setPhase_def awaitsLLM_def)

lemma storedHistory_enter:
  "storedHistory (enter s p) u =
     (if u = userId p then enforceCap (pushUser (storedHistory s u) (text p))
      else storedHistory s u)"
  by (simp add: storedHistory_def enter_def Let_def)

lemma awaitingLLM_enter:
  "awaitingLLM (enter s p) u = awaitingLLM s u + (if userId p = u then 1 else 0)"
  by (simp add: awaitingLLM_def enter_def Let_def awaitsLLM_def)

lemma resumeAfterSend_history: "storedHistory (resumeAfterSend s i r) u = storedHistory s u"
  by (simp add: resumeAfterSend_def storedHistory_def setPhase_def split: sum.split)

lemma resumeAfterSend_awaiting: "awaitingLLM (resumeAfterSend s i r) u = awaitingLLM s u"
proof -
  have a: "awaitingLLM (setPhase s i ph) u = awaitingLLM s u"
    if "i < length (turns s)" "phase (turns s ! i) \<noteq> AwaitingLLM" "ph \<noteq> AwaitingLLM" for ph
    using awaitingLLM_setPhase [OF that(1) that(3), of u] that(2)
    by (simp add: awaitsLLM_def)
  show ?thesis
    by (auto simp add: resumeAfterSend_def a split: sum.split)
qed

lemma resumeAfterLLM_idle:
  "\<not> (i < length (turns s) \<and> phase (turns s ! i) = AwaitingLLM) \<Longrightarrow>
   resumeAfterLLM s i r = s"
  by (auto simp add: resumeAfterLLM_def)

lemma resumeAfterLLM_awaiting:
  assumes "i < length (turns s)" and "phase (turns s ! i) = AwaitingLLM"
  shows "awaitingLLM (resumeAfterLLM s i r) u
           + (if userId (turnPayload (turns s ! i)) = u then 1 else 0) = awaitingLLM s u"
proof -
  have "awaitingLLM (setPhase s i ph) u
           + (if userId (turnPayload (turns s ! i)) = u then 1 else 0) = awaitingLLM s u"
    if "ph \<noteq> AwaitingLLM" for ph
    using awaitingLLM_setPhase [OF assms(1) that, of u] assms(2)
    by (simp add: awaitsLLM_def)
  from this [of AwaitingApology] this [of AwaitingSend] assms show ?thesis
    by (auto simp add: resumeAfterLLM_def Let_def split: sum.split if_splits)
qed

lemma resumeAfterLLM_history:
  assumes "i < length (turns s)" and "phase (turns s ! i) = AwaitingLLM"
  shows "storedHistory (resumeAfterLLM s i r) u =
           (if userId (turnPayload (turns s ! i)) = u
            then (case r of Inl e \<Rightarrow> storedHistory s u
                  | Inr t \<Rightarrow> if t \<noteq> [] then pushAssistant (storedHistory s u) t
                             else storedHistory s u)
            else storedHistory s u)"
  using assms
  by (auto simp add: resumeAfterLLM_def Let_def storedHistory_def setPhase_def
      split: sum.split)

text \<open>
  A call that nothing interrupts is \<open>handleIncomingMessage\<close> as defined above: the
  start of a call followed by the settling of its \<open>generateResponse\<close> leaves the map
  of histories that \<open>handleIncomingMessage\<close> leaves, and the sends change no history.
\<close>

lemma one_turn_histories:
  assumes "histories s = conversationHistories c"
  shows "histories (run s [Inbound p, LLMSettles (length (turns s)) (turnResponse c p)])
           = conversationHistories (snd (handleIncomingMessage c p))"
  using assms
  by (auto simp add: handleIncomingMessage_histories turnHistory_def turnContext_def
      historyOf_def enter_def resumeAfterLLM_def Let_def storedHistory_def setPhase_def
      split: sum.split option.split)

lemma send_settles_histories: "histories (step s (SendSettles i r)) = histories s"
  by (simp add: resumeAfterSend_def setPhase_def split: sum.split)

subsection \<open>The bound\<close>

text \<open>
  The entries of a user's history and the calls of the user that wait for
  \<open>generateResponse\<close>, counted together: a step either does not raise the count or is
  the start of a call, after which the history has at most \<open>maxHistoryLength\<close>
  entries.
\<close>

lemma step_weight:
  "length (storedHistory (step s e) u) + awaitingLLM (step s e) u
     \<le> max (length (storedHistory s u) + awaitingLLM s u)
           (maxHistoryLength + awaitingLLM (step s e) u)"
proof (cases e)
  case (Inbound p)
  then show ?thesis
    using length_enforceCap_le [of "pushUser (storedHistory s u) (text p)"]
    by (auto simp add: storedHistory_enter awaitingLLM_enter le_max_iff_disj)
next
  case (LLMSettles i r)
  show ?thesis
  proof (cases "i < length (turns s) \<and> phase (turns s ! i) = AwaitingLLM")
    case True
    then have v: "i < length (turns s)" "phase (turns s ! i) = AwaitingLLM"
      by simp_all
    from resumeAfterLLM_awaiting [OF v, of r u] resumeAfterLLM_history [OF v, of r u]
    show ?thesis
      using LLMSettles by (auto simp add: pushAssistant_def split: sum.splits if_splits)
  next
    case False
    then show ?thesis
      using LLMSettles by (simp add: resumeAfterLLM_idle)
  qed
next
  case (SendSettles i r)
  then show ?thesis
    by (simp add: resumeAfterSend_history resumeAfterSend_awaiting)
qed

lemma peakAwaiting_ge: "awaitingLLM s u \<le> peakAwaiting s es u"
  by (cases es) simp_all

lemma run_weight:
  "length (storedHistory s u) + awaitingLLM s u \<le> maxHistoryLength + k \<Longrightarrow>
   length (storedHistory (run s es) u) + awaitingLLM (run s es) u
     \<le> maxHistoryLength + max k (peakAwaiting s es u)"
proof (induction es arbitrary: s k)
  case Nil
  then show ?case by simp
next
  case (Cons e es)
  let ?s' = "step s e"
  have "length (storedHistory ?s' u) + awaitingLLM ?s' u
          \<le> maxHistoryLength + max k (awaitingLLM ?s' u)"
    using step_weight [of s e u] Cons.prems by simp
  from Cons.IH [OF this]
  have "length (storedHistory (run ?s' es) u) + awaitingLLM (run ?s' es) u
          \<le> maxHistoryLength + max (max k (awaitingLLM ?s' u)) (peakAwaiting ?s' es u)" .
  moreover have "awaitingLLM ?s' u \<le> peakAwaiting ?s' es u"
    by (rule peakAwaiting_ge)
  ultimately show ?case
    by simp
qed

text \<open>
  Claim C1, amended: for every user and every run of the core from no history, with
  turns overlapping in any way, the stored history of the user has at every moment, and
  so after each completed turn, at most \<open>maxHistoryLength + k\<close> entries, where \<open>k\<close> is
  the largest number of calls of that user that waited for \<open>generateResponse\<close> at the
  same time; the calls still waiting count against the bound. For a user whose turns do
  not overlap \<open>k\<close> is 1 and the bound is eleven.
\<close>

theorem stored_history_bound_overlapping:
  "length (storedHistory (run idle es) u) + awaitingLLM (run idle es) u
     \<le> maxHistoryLength + peakAwaiting idle es u"
proof -
  have "length (storedHistory idle u) + awaitingLLM idle u \<le> maxHistoryLength + 0"
    by (simp add: idle_def storedHistory_def awaitingLLM_def)
  from run_weight [OF this, of es] show ?thesis
    by simp
qed

theorem stored_history_bound_overlapping_witness:
  "length (storedHistory (run idle overlappingRun) alice) = 12
   \<and> awaitingLLM (run idle overlappingRun) alice = 0
   \<and> peakAwaiting idle overlappingRun alice = 2
   \<and> length (storedHistory (run idle overlappingRun) alice)
       + awaitingLLM (run idle overlappingRun) alice
     \<le> maxHistoryLength + peakAwaiting idle overlappingRun alice"
proof -
  have "length (storedHistory (run idle overlappingRun) alice) = 12"
    "awaitingLLM (run idle overlappingRun) alice = 0"
    "peakAwaiting idle overlappingRun alice = 2"
    by code_simp+
  with stored_history_bound_overlapping [of overlappingRun alice] show ?thesis
    by blast
qed

text \<open>Without overlap, eleven entries at most.\<close>

lemma stored_history_bound_without_overlap:
  assumes "peakAwaiting idle es u \<le> 1"
  shows "length (storedHistory (run idle es) u) \<le> maxHistoryLength + 1"
proof -
  have "length (storedHistory (run idle es) u) + awaitingLLM (run idle es) u
          \<le> maxHistoryLength + peakAwaiting idle es u"
    by (rule run_weight [of idle u 0 es, simplified])
      (simp add: idle_def storedHistory_def awaitingLLM_def)
  with assms show ?thesis
    by simp
qed

lemma processMessages_contexts:
  "list_all (\<lambda>ms. length ms \<le> maxHistoryLength) (llmContexts (calls c)) \<Longrightarrow>
   list_all (\<lambda>ms. length ms \<le> maxHistoryLength)
     (llmContexts (calls (processMessages c ps)))"
proof (induction ps arbitrary: c)
  case Nil
  then show ?case by simp
next
  case (Cons p ps)
  have "list_all (\<lambda>ms. length ms \<le> maxHistoryLength)
          (llmContexts (calls (snd (handleIncomingMessage c p))))"
    using Cons.prems by (simp add: llmContexts_after_turn length_turnContext)
  then show ?case
    using Cons.IH by simp
qed

text \<open>
  Claim C10. Every message list that \<open>handleIncomingMessage\<close> passes to
  \<open>generateResponse\<close>, over any sequence of inbound messages of any users, has at
  most \<open>maxHistoryLength\<close> entries.
\<close>

theorem llm_context_bound:
  "list_all (\<lambda>ms. length ms \<le> maxHistoryLength)
     (llmContexts (calls (processMessages (newChatbot ma m0 la l0 opts) ps)))"
  by (rule processMessages_contexts) (simp add: newChatbot_def)

theorem llm_context_bound_witness:
  "list_all (\<lambda>ms. length ms \<le> maxHistoryLength)
     (llmContexts (calls (processMessages answeringBot (replicate 7 (inbound alice hi)))))
   \<and> map length (llmContexts (calls (processMessages answeringBot
                                        (replicate 7 (inbound alice hi)))))
       = [1, 3, 5, 7, 9, 10, 10]"
proof -
  have "map length (llmContexts (calls (processMessages answeringBot
                                          (replicate 7 (inbound alice hi)))))
          = [1, 3, 5, 7, 9, 10, 10]"
    by code_simp
  with llm_context_bound [of stubMessaging "()" "stubLLM (Inr (js ''ok''))" "()" None
      "replicate 7 (inbound alice hi)"]
  show ?thesis
    by (simp only: answeringBot_def simp_thms)
qed

text \<open>
  The same holds when turns overlap: the user entry is pushed, the cap enforced and
  \<open>generateResponse\<close> called in one piece, with no \<open>await\<close> in between.
\<close>

lemma llmContexts_step:
  "llmContexts (requests (step s e)) =
     llmContexts (requests s)
     @ (case e of
          Inbound p \<Rightarrow> [enforceCap (pushUser (storedHistory s (userId p)) (text p))]
        | LLMSettles i r \<Rightarrow> []
        | SendSettles i r \<Rightarrow> [])"
  by (cases e)
    (auto simp add: enter_def resumeAfterLLM_def resumeAfterSend_def setPhase_def Let_def
      storedHistory_def llmContexts_append split: sum.split)

lemma run_contexts_bounded:
  "list_all (\<lambda>ms. length ms \<le> maxHistoryLength) (llmContexts (requests s)) \<Longrightarrow>
   list_all (\<lambda>ms. length ms \<le> maxHistoryLength) (llmContexts (requests (run s es)))"
proof (induction es arbitrary: s)
  case Nil
  then show ?case by simp
next
  case (Cons e es)
  have "list_all (\<lambda>ms. length ms \<le> maxHistoryLength) (llmContexts (requests (step s e)))"
    using Cons.prems
    by (cases e) (simp_all add: llmContexts_step length_enforceCap_le del: step.simps)
  then show ?case
    using Cons.IH by simp
qed

lemma overlapping_contexts_bounded:
  "list_all (\<lambda>ms. length ms \<le> maxHistoryLength) (llmContexts (requests (run idle es)))"
  by (rule run_contexts_bounded) (simp add: idle_def)

section \<open>Independence of users\<close>

text \<open>
  Claim C8. A turn for the user of the payload leaves the entry of every other user
  in the map of histories as it was.
\<close>

theorem other_users_untouched:
  assumes "b \<noteq> userId p"
  shows "conversationHistories (snd (handleIncomingMessage c p)) b
           = conversationHistories c b"
  using assms by (simp add: handleIncomingMessage_histories)

theorem other_users_untouched_witness:
  "bob \<noteq> userId (inbound alice hi)
   \<and> conversationHistories
         (snd (handleIncomingMessage (processMessages answeringBot [inbound bob hi])
                 (inbound alice hi))) bob
       = conversationHistories (processMessages answeringBot [inbound bob hi]) bob
   \<and> historyOf (processMessages answeringBot [inbound bob hi]) bob
       = [\<lparr>role = User, content = hi\<rparr>, \<lparr>role = Assistant, content = js ''ok''\<rparr>]"
proof -
  have ne: "bob \<noteq> userId (inbound alice hi)"
    by code_simp
  have h: "historyOf (processMessages answeringBot [inbound bob hi]) bob
       = [\<lparr>role = User, content = hi\<rparr>, \<lparr>role = Assistant, content = js ''ok''\<rparr>]"
    by code_simp
  from other_users_untouched [OF ne] ne h show ?thesis
    by blast
qed

section \<open>The shape of the stored history\<close>

lemma alternates_tl: "alternates (r # rs) \<Longrightarrow> alternates rs"
  by (cases rs) simp_all

lemma alternates_hd: "alternates (r # rs) \<Longrightarrow> r \<noteq> System"
  by (cases rs) simp_all

lemma alternates_drop: "alternates rs \<Longrightarrow> alternates (drop k rs)"
proof (induction k arbitrary: rs)
  case 0
  then show ?case by simp
next
  case (Suc k)
  show ?case
  proof (cases rs)
    case Nil
    then show ?thesis by simp
  next
    case (Cons r rs')
    with Suc.prems have "alternates rs'"
      by (simp add: alternates_tl)
    with Cons Suc.IH show ?thesis
      by simp
  qed
qed

lemma alternates_snoc:
  "alternates (rs @ [r]) \<longleftrightarrow> alternates rs \<and> r \<noteq> System \<and> (rs = [] \<or> last rs \<noteq> r)"
  by (induction rs rule: alternates.induct) auto

lemma alternates_offset: "alternates (map role h) \<Longrightarrow> systemPromptOffset h = 0"
  by (cases h) (auto simp add: systemPromptOffset_def dest: alternates_hd)

lemma enforceCap_alternates:
  assumes "alternates (map role h)"
  shows "enforceCap h = drop (length h - maxHistoryLength) h"
proof (cases "length h > maxHistoryLength")
  case True
  with assms show ?thesis
    by (simp add: enforceCap_long alternates_offset)
next
  case False
  then show ?thesis
    by (simp add: enforceCap_short)
qed

lemma settled_push_cap:
  assumes "settled h"
  shows "alternates (map role (enforceCap (pushUser h t)))
         \<and> enforceCap (pushUser h t) \<noteq> []
         \<and> role (last (enforceCap (pushUser h t))) = User"
proof -
  let ?h1 = "pushUser h t"
  from assms have a1: "alternates (map role ?h1)"
    by (auto simp add: settled_def pushUser_def alternates_snoc last_map)
  then have cap: "enforceCap ?h1 = drop (length ?h1 - maxHistoryLength) ?h1"
    by (rule enforceCap_alternates)
  have lt: "length ?h1 - maxHistoryLength < length ?h1"
    by (simp add: pushUser_def maxHistoryLength_def)
  then have ne: "enforceCap ?h1 \<noteq> []"
    by (simp add: cap)
  from lt have "last (enforceCap ?h1) = last ?h1"
    by (simp add: cap)
  then have l: "role (last (enforceCap ?h1)) = User"
    by (simp add: pushUser_def)
  from a1 have a2: "alternates (map role (enforceCap ?h1))"
    by (simp add: cap drop_map [symmetric] alternates_drop)
  from a2 ne l show ?thesis
    by simp
qed

lemma inStep_step:
  assumes "inStep u s" and "orderlyStep u s e"
  shows "inStep u (step s e)"
proof (cases e)
  case (Inbound p)
  show ?thesis
  proof (cases "userId p = u")
    case True
    with assms Inbound have z: "awaitingLLM s u = 0"
      by (simp add: orderlyStep_def)
    with assms(1) have "settled (storedHistory s u)"
      by (simp add: inStep_def settled_def)
    from settled_push_cap [OF this, of "text p"] z True Inbound show ?thesis
      by (simp add: inStep_def storedHistory_enter awaitingLLM_enter)
  next
    case False
    with assms(1) Inbound show ?thesis
      by (auto simp add: inStep_def storedHistory_enter awaitingLLM_enter)
  qed
next
  case (LLMSettles i r)
  show ?thesis
  proof (cases "i < length (turns s) \<and> phase (turns s ! i) = AwaitingLLM")
    case True
    then have v: "i < length (turns s)" "phase (turns s ! i) = AwaitingLLM"
      by simp_all
    note aw = resumeAfterLLM_awaiting [OF v, of r u]
    note hi = resumeAfterLLM_history [OF v, of r u]
    show ?thesis
    proof (cases "userId (turnPayload (turns s ! i)) = u")
      case True
      with v assms(2) LLMSettles obtain t where t: "r = Inr t" "t \<noteq> []"
        by (auto simp add: orderlyStep_def awaitsLLM_def split: sum.splits)
      from aw True have a1: "awaitingLLM s u = Suc (awaitingLLM (resumeAfterLLM s i r) u)"
        by simp
      with assms(1) have one: "awaitingLLM s u = 1" "storedHistory s u \<noteq> []"
        "role (last (storedHistory s u)) = User" "alternates (map role (storedHistory s u))"
        by (auto simp add: inStep_def split: if_splits)
      from one a1 have a0: "awaitingLLM (resumeAfterLLM s i r) u = 0"
        by simp
      from hi True t have h': "storedHistory (resumeAfterLLM s i r) u
          = pushAssistant (storedHistory s u) t"
        by simp
      from one show ?thesis
        using LLMSettles
        by (simp add: inStep_def a0 h' pushAssistant_def alternates_snoc last_map)
    next
      case False
      with aw hi have eqs: "awaitingLLM (resumeAfterLLM s i r) u = awaitingLLM s u"
        "storedHistory (resumeAfterLLM s i r) u = storedHistory s u"
        by simp_all
      from assms(1) show ?thesis
        unfolding LLMSettles step.simps inStep_def eqs .
    qed
  next
    case False
    with assms(1) LLMSettles show ?thesis
      by (simp add: resumeAfterLLM_idle)
  qed
next
  case (SendSettles i r)
  from assms(1) show ?thesis
    unfolding SendSettles step.simps inStep_def resumeAfterSend_history
      resumeAfterSend_awaiting .
qed

lemma inStep_run: "inStep u s \<Longrightarrow> orderly u s es \<Longrightarrow> inStep u (run s es)"
proof (induction es arbitrary: s)
  case Nil
  then show ?case by simp
next
  case (Cons e es)
  from Cons.prems have "inStep u (step s e)"
    by (simp add: inStep_step)
  with Cons.IH [of "step s e"] Cons.prems show ?case
    by simp
qed

text \<open>
  Claim C2, as stated: between completed turns every stored history is well formed,
  with no two neighbouring entries of the same role. It fails: a turn whose LLM call
  rejects keeps its user entry and gets no assistant entry, so the user entry of the
  next turn follows it directly.
\<close>

theorem failed_turn_breaks_alternation:
  "historyOf (processMessages failingBot (replicate 2 (inbound alice hi))) alice
     = [\<lparr>role = User, content = hi\<rparr>, \<lparr>role = User, content = hi\<rparr>]
   \<and> \<not> wellFormedHistory
         (historyOf (processMessages failingBot (replicate 2 (inbound alice hi))) alice)"
  by code_simp

text \<open>
  Answered turns that overlap do not alternate either: two messages of a user handled
  one after the other before either answer arrives leave two user entries followed by
  two assistant entries.
\<close>

lemma overlapping_turns_break_alternation:
  "map role (storedHistory
       (run idle [Inbound (inbound alice hi), Inbound (inbound alice hi),
                  LLMSettles 0 (Inr (js ''ok'')), LLMSettles 1 (Inr (js ''ok''))]) alice)
     = [User, User, Assistant, Assistant]"
  by code_simp

text \<open>
  Claim C2, amended: for every user, in every run of the core from no history in which
  no message of that user is handled while an earlier call of the same user waits for
  \<open>generateResponse\<close>, and in which every \<open>generateResponse\<close> of that user's calls
  resolves with a non-empty text, the stored history of that user consists at every
  moment of user and assistant entries that alternate in arrival order, with no two
  consecutive entries of the same role and no system entry. Nothing is required of the
  turns of other users.
\<close>

theorem orderly_turns_alternate:
  assumes "orderly u idle es"
  shows "alternates (map role (storedHistory (run idle es) u))
         \<and> wellFormedHistory (storedHistory (run idle es) u)"
proof -
  have "inStep u idle"
    by (simp add: inStep_def idle_def storedHistory_def awaitingLLM_def)
  from inStep_run [OF this assms]
  have a: "alternates (map role (storedHistory (run idle es) u))"
    by (simp add: inStep_def)
  then have "wellFormedHistory (storedHistory (run idle es) u)"
    by (cases "storedHistory (run idle es) u")
      (auto simp add: wellFormedHistory_def dest: alternates_hd)
  with a show ?thesis
    by simp
qed

theorem orderly_turns_alternate_witness:
  "orderly alice idle orderlyRun
   \<and> alternates (map role (storedHistory (run idle orderlyRun) alice))
   \<and> wellFormedHistory (storedHistory (run idle orderlyRun) alice)
   \<and> map role (storedHistory (run idle orderlyRun) alice)
       = [User, Assistant, User, Assistant]
   \<and> map role (storedHistory (run idle orderlyRun) bob) = [User]"
proof -
  have a: "orderly alice idle orderlyRun"
    by code_simp
  have b: "map role (storedHistory (run idle orderlyRun) alice)
       = [User, Assistant, User, Assistant]"
    "map role (storedHistory (run idle orderlyRun) bob) = [User]"
    by code_simp+
  from orderly_turns_alternate [OF a] a b show ?thesis
    by blast
qed

section \<open>What a turn sends and how it ends\<close>

text \<open>
  Claim C3, as stated: one call of \<open>handleIncomingMessage\<close> makes exactly one
  \<open>sendMessage\<close> call. It fails: when the send of the answer rejects, the \<open>catch\<close>
  block sends the apology, which is a second call.
\<close>

theorem two_sends_in_one_turn:
  "sendCalls (calls (snd (handleIncomingMessage flakyBot (inbound alice hi))))
     = [(alice, js ''ok''), (alice, genericApology)]
   \<and> length (sendCalls (calls (snd (handleIncomingMessage flakyBot (inbound alice hi)))))
     = 2"
  by code_simp

text \<open>
  Claim C3, amended: one call of \<open>handleIncomingMessage\<close> makes one \<open>sendMessage\<close>
  call to the user of the payload, carrying the answer of the LLM, the notice (empty
  answer) or the apology (LLM call rejected); when the LLM call resolved and that send
  rejects, it makes exactly one more call, carrying the apology. There is never no
  call and there are never more than two.
\<close>

theorem sends_of_a_turn:
  "sendCalls (calls (snd (handleIncomingMessage c p))) =
     sendCalls (calls c) @
     (if \<not> isl (turnResponse c p)
         \<and> isl (fst (messagingAdapter c (messagingState c) (userId p)
                       (firstReply (turnResponse c p))))
      then [(userId p, firstReply (turnResponse c p)), (userId p, genericApology)]
      else [(userId p, firstReply (turnResponse c p))])"
  by (simp add: sendCalls_after_turn turnSends_def Let_def)

theorem sends_of_a_turn_witness:
  "sendCalls (calls (snd (handleIncomingMessage answeringBot (inbound alice hi))))
     = [(alice, js ''ok'')]
   \<and> sendCalls (calls (snd (handleIncomingMessage emptyBot (inbound alice hi))))
       = [(alice, noResponseNotice)]
   \<and> sendCalls (calls (snd (handleIncomingMessage failingBot (inbound alice hi))))
       = [(alice, genericApology)]"
proof -
  have a: "sendCalls (calls answeringBot) = []"
    "\<not> isl (turnResponse answeringBot (inbound alice hi))"
    "\<not> isl (fst (messagingAdapter answeringBot (messagingState answeringBot)
                    (userId (inbound alice hi))
                    (firstReply (turnResponse answeringBot (inbound alice hi)))))"
    "userId (inbound alice hi) = alice"
    "firstReply (turnResponse answeringBot (inbound alice hi)) = js ''ok''"
    by code_simp+
  have b: "sendCalls (calls emptyBot) = []"
    "\<not> isl (fst (messagingAdapter emptyBot (messagingState emptyBot)
                    (userId (inbound alice hi))
                    (firstReply (turnResponse emptyBot (inbound alice hi)))))"
    "firstReply (turnResponse emptyBot (inbound alice hi)) = noResponseNotice"
    by code_simp+
  have c: "sendCalls (calls failingBot) = []"
    "isl (turnResponse failingBot (inbound alice hi))"
    "firstReply (turnResponse failingBot (inbound alice hi)) = genericApology"
    by code_simp+
  from sends_of_a_turn [of answeringBot "inbound alice hi"]
    sends_of_a_turn [of emptyBot "inbound alice hi"]
    sends_of_a_turn [of failingBot "inbound alice hi"] a b c
  show ?thesis
    by simp
qed







section \<open>What the LLM adapters return\<close>

lemma dropWhile_hd: "dropWhile P xs \<noteq> [] \<Longrightarrow> \<not> P (hd (dropWhile P xs))"
  by (metis hd_dropWhile)

lemma dropWhile_rev_nonempty: "dropWhile P (rev xs) \<noteq> [] \<Longrightarrow> xs \<noteq> []"
  by auto

lemma dropWhile_keeps: "xs \<noteq> [] \<Longrightarrow> \<not> P (hd xs) \<Longrightarrow> dropWhile P xs = xs"
  by (cases xs) simp_all

lemma last_dropWhile: "dropWhile P xs \<noteq> [] \<Longrightarrow> last (dropWhile P xs) = last xs"
  by (metis last_appendR takeWhile_dropWhile_id)

lemma trim_edges:
  assumes "trim s \<noteq> []"
  shows "\<not> isWhiteSpace (hd (trim s)) \<and> \<not> isWhiteSpace (last (trim s))"
proof -
  define a where "a = dropWhile isWhiteSpace s"
  define b where "b = dropWhile isWhiteSpace (rev a)"
  have t: "trim s = rev b"
    by (simp add: trim_def a_def b_def)
  from assms t have b: "b \<noteq> []"
    by simp
  then have "dropWhile isWhiteSpace (rev a) \<noteq> []"
    unfolding b_def .
  then have a: "a \<noteq> []" and lb: "last b = last (rev a)" and hb: "\<not> isWhiteSpace (hd b)"
    unfolding b_def by (rule dropWhile_rev_nonempty, rule last_dropWhile, rule dropWhile_hd)
  from a have "dropWhile isWhiteSpace s \<noteq> []"
    unfolding a_def .
  then have ha: "\<not> isWhiteSpace (hd a)"
    unfolding a_def by (rule dropWhile_hd)
  from b have "hd (rev b) = last b" and "last (rev b) = hd b"
    by (simp_all add: hd_rev last_rev)
  moreover from a have "last (rev a) = hd a"
    by (simp add: last_rev)
  ultimately show ?thesis
    using t lb hb ha by simp
qed

lemma trim_idem: "trim (trim s) = trim s"
proof (cases "trim s = []")
  case True
  have "trim [] = []"
    by (simp add: trim_def)
  with True show ?thesis
    by simp
next
  case False
  define t where "t = trim s"
  from False trim_edges [OF False]
  have ne: "t \<noteq> []" and h: "\<not> isWhiteSpace (hd t)" and l: "\<not> isWhiteSpace (last t)"
    by (simp_all add: t_def)
  from ne h have 1: "dropWhile isWhiteSpace t = t"
    by (rule dropWhile_keeps)
  from ne l have 2: "dropWhile isWhiteSpace (rev t) = rev t"
    by (intro dropWhile_keeps) (simp_all add: hd_rev)
  have "trim t = t"
    by (simp add: trim_def 1 2)
  then show ?thesis
    by (simp only: t_def)
qed

text \<open>The Gemini adapter returns trimmed text, whatever the provider answers.\<close>

lemma GeminiAdapter_trimmed:
  assumes "fst (GeminiAdapter_generateResponse generateContent dm p ms opts) = Inr t"
  shows "trim t = t \<and> (t = [] \<or> \<not> isWhiteSpace (hd t) \<and> \<not> isWhiteSpace (last t))"
proof -
  from assms obtain s where "t = trim s"
    by (auto simp add: GeminiAdapter_generateResponse_def split: prod.splits sum.splits)
  then show ?thesis
    using trim_edges [of s] by (auto simp add: trim_idem)
qed

text \<open>The ChatGPT adapter returns a non-empty content of the first choice as it is.\<close>

lemma ChatGPTAdapter_verbatim:
  assumes "create p \<lparr>req_model = orElse (optModel opts) dm, req_messages = ms,
                     req_temperature = optTemperature opts,
                     req_max_tokens = optMaxTokens opts\<rparr>
             = (Inr (ChatCompletion (Choice (Some (ChatCompletionMessage (Some t))) # chs)),
                p')"
    and "t \<noteq> []"
  shows "fst (ChatGPTAdapter_generateResponse create dm p ms opts) = Inr t"
  using assms
  by (simp add: ChatGPTAdapter_generateResponse_def firstChoiceContent_def orElse_def)

text \<open>
  Claim C7: both LLM adapters return the completion trimmed of leading and trailing
  whitespace. The Gemini adapter does; the ChatGPT adapter does not: for the completion
  \<open>" hi "\<close> it returns \<open>" hi "\<close>, which starts and ends with a space, where the Gemini
  adapter returns \<open>"hi"\<close>.
\<close>

theorem chatgpt_returns_untrimmed:
  "ChatGPTAdapter_generateResponse (stubOpenAI (js '' hi ''))
       (js ''gpt-4.1-nano-2025-04-14'') () [] None
     = (Inr (js '' hi ''), ())
   \<and> isWhiteSpace (hd (js '' hi '')) \<and> isWhiteSpace (last (js '' hi ''))
   \<and> trim (js '' hi '') = js ''hi''
   \<and> GeminiAdapter_generateResponse (stubGemini (js '' hi ''))
       (js ''gemini-2.0-flash-lite'') () [] None
     = (Inr (js ''hi''), ())"
  by code_simp

section \<open>How \<open>sendMessage\<close> ends\<close>

text \<open>
  Claim C9, as stated: \<open>sendMessage\<close> rejects when the recipient is unknown, and so
  does that of the console adapter for a user other than the console user. It fails:
  the console adapter warns and resolves.
\<close>

theorem console_send_to_unknown_user_resolves:
  "bob \<noteq> CONSOLE_USER_ID
   \<and> fst (ConsoleAdapter_sendMessage \<lparr>rl = True, console = []\<rparr> bob hi) = Inr ()
   \<and> console (snd (ConsoleAdapter_sendMessage \<lparr>rl = True, console = []\<rparr> bob hi))
       = [ConsoleWarn (js ''ConsoleAdapter: Attempted to send message to unknown user bob''),
          Prompt]"
  by code_simp

text \<open>
  Claim C9, amended: \<open>sendMessage\<close> of the Telegram and of the Twilio adapter rejects
  exactly when the platform call rejects, with the error of the platform;
  \<open>sendMessage\<close> of the console adapter and of the WhatsApp placeholder always
  resolves: the console adapter prints the text for the console user and a warning for
  any other user.
\<close>

theorem sendMessage_outcomes:
  "fst (ConsoleAdapter_sendMessage a u t) = Inr ()
   \<and> console (snd (ConsoleAdapter_sendMessage a u t))
       = console a
         @ (if u = CONSOLE_USER_ID then [ConsoleLog (js ''Bot: '' @ t)]
            else [ConsoleWarn
                    (js ''ConsoleAdapter: Attempted to send message to unknown user '' @ u)])
         @ (if rl a then [Prompt] else [])
   \<and> fst (WhatsAppAdapter_sendMessage w u t) = Inr ()
   \<and> fst (TelegramAdapter_sendMessage bot_sendMessage ta u t)
       = fst (bot_sendMessage (fst ta) u t)
   \<and> fst (TwilioWhatsAppAdapter_sendMessage messages_create twilioPhoneNumber tw u t)
       = map_sum id (\<lambda>sid. ()) (fst (messages_create (fst tw) t twilioPhoneNumber u))"
  by (auto simp add: ConsoleAdapter_sendMessage_def WhatsAppAdapter_sendMessage_def
      TelegramAdapter_sendMessage_def TwilioWhatsAppAdapter_sendMessage_def Let_def
      split: prod.split sum.split)

end
